theory Spec2Isabelle
  imports Complex_Main
begin

section \<open>Arrays\<close>

text \<open>
  The notebook computes with numpy arrays of 64-bit floats.  They are modelled in exact real
  arithmetic: a one-dimensional array is a list of reals, a two-dimensional array is the list
  of its rows.  Rounding, \<open>inf\<close> and \<open>nan\<close> are outside this model; in particular a
  quotient agrees with numpy's only where the divisor is not zero, and the statements below
  that depend on a quotient say so.

  Every point, gradient and direction of the notebook is an array of shape \<open>(3, 1)\<close>, that
  is \<open>[[u], [v], [w]]\<close>, and on such arrays none of the numpy operations used raises.  The
  array operations below are total functions on lists; the properties are meant for arrays of
  shape \<open>(3, 1)\<close>, and are stated for arbitrary lists only where the shape plays no role.

  The exceptions the code can raise on such arrays are the two \<open>TimeoutError\<close>s of
  \<open>my_line_search\<close>, each with its message, and the \<open>UnboundLocalError\<close> of a local
  variable that is read before it is bound.
\<close>

type_synonym array1 = "real list"
type_synonym array2 = "real list list"

datatype error = TimeoutError string | UnboundLocalError string

text \<open>\<open>arr.shape\<close> of a two-dimensional array.\<close>

definition shape :: "array2 \<Rightarrow> nat \<times> nat" where
  "shape m = (length m, (case m of [] \<Rightarrow> 0 | r # _ \<Rightarrow> length r))"

text \<open>\<open>np.ones(s)\<close> and \<open>np.eye(n)\<close>.\<close>

definition ones :: "nat \<times> nat \<Rightarrow> array2" where
  "ones s = replicate (fst s) (replicate (snd s) 1)"

definition eye :: "nat \<Rightarrow> array2" where
  "eye n = map (\<lambda>i. map (\<lambda>j. if i = j then 1 else 0) [0..<n]) [0..<n]"

text \<open>\<open>A @ B\<close>; \<open>A.T\<close> is \<^const>\<open>transpose\<close>.\<close>

definition matmul :: "array2 \<Rightarrow> array2 \<Rightarrow> array2" where
  "matmul A B = map (\<lambda>r. map (\<lambda>c. sum_list (map2 (*) r c)) (transpose B)) A"

text \<open>Elementwise operations on arrays of equal shape, and operations with a scalar.\<close>

definition add1 :: "array1 \<Rightarrow> array1 \<Rightarrow> array1" where
  "add1 u v = map2 (+) u v"

definition sub1 :: "array1 \<Rightarrow> array1 \<Rightarrow> array1" where
  "sub1 u v = map2 (-) u v"

definition add2 :: "array2 \<Rightarrow> array2 \<Rightarrow> array2" where
  "add2 A B = map2 add1 A B"

definition sub2 :: "array2 \<Rightarrow> array2 \<Rightarrow> array2" where
  "sub2 A B = map2 sub1 A B"

definition smul1 :: "real \<Rightarrow> array1 \<Rightarrow> array1" where
  "smul1 c v = map (\<lambda>e. c * e) v"

definition ssub1 :: "array1 \<Rightarrow> real \<Rightarrow> array1" where
  "ssub1 v c = map (\<lambda>e. e - c) v"

definition pow1 :: "array1 \<Rightarrow> nat \<Rightarrow> array1" where
  "pow1 v k = map (\<lambda>e. e ^ k) v"

definition sdiv1 :: "array1 \<Rightarrow> real \<Rightarrow> array1" where
  "sdiv1 v c = map (\<lambda>e. e / c) v"

definition smul2 :: "real \<Rightarrow> array2 \<Rightarrow> array2" where
  "smul2 c A = map (smul1 c) A"

definition sdiv2 :: "array2 \<Rightarrow> real \<Rightarrow> array2" where
  "sdiv2 A c = map (\<lambda>r. sdiv1 r c) A"

text \<open>\<open>v.reshape(s)\<close> of a one-dimensional array, row by row.\<close>

definition reshape :: "nat \<times> nat \<Rightarrow> array1 \<Rightarrow> array2" where
  "reshape s v = map (\<lambda>i. take (snd s) (drop (i * snd s) v)) [0..<fst s]"

text \<open>\<open>np.linalg.norm\<close> of a two-dimensional array: the Frobenius norm.\<close>

definition linalg_norm :: "array2 \<Rightarrow> real" where
  "linalg_norm A = sqrt (sum_list (map (\<lambda>e. e\<^sup>2) (concat A)))"

text \<open>
  Operations between an array of shape \<open>(1, 1)\<close> and another array, which numpy
  broadcasts: the quotient of two such arrays, and the product of one with any array.
\<close>

definition div11 :: "array2 \<Rightarrow> array2 \<Rightarrow> array2" where
  "div11 A B = map2 (map2 (/)) A B"

definition bmul :: "array2 \<Rightarrow> array2 \<Rightarrow> array2" where
  "bmul S A = smul2 (S ! 0 ! 0) A"

section \<open>Parameters of the problem and helpers\<close>

definition a :: real where "a = 2"
definition b :: real where "b = 3"

definition x0 :: array2 where "x0 = [[2], [3], [2]]"
definition answer :: array2 where "answer = [[1], [2], [1]]"

text \<open>
  \<open>f(x)\<close> works on the rows \<open>x[0]\<close>, \<open>x[1]\<close>, \<open>x[2]\<close> elementwise, so it evaluates
  the cost at every column of \<open>x\<close> at once.
\<close>

definition f :: "array2 \<Rightarrow> array1" where
  "f x = add1 (add1 (smul1 a (pow1 (ssub1 (x ! 0) 1) 4)) (pow1 (ssub1 (x ! 1) 2) 2))
              (smul1 b (pow1 (ssub1 (x ! 2) 1) 4))"

definition delta_default :: real where "delta_default = 1 / 10 ^ 7"

definition grad :: "array2 \<Rightarrow> real \<Rightarrow> array2" where
  "grad pt delta =
     (let xs = matmul pt (transpose (ones (shape pt)));
          xh = add2 xs (smul2 delta (eye (fst (shape pt))))
      in reshape (shape pt) (sdiv1 (sub1 (f xh) (f xs)) delta))"

definition normalize :: "array2 \<Rightarrow> array2" where
  "normalize vec = (let norm = linalg_norm vec in if norm = 0 then vec else sdiv2 vec norm)"

section \<open>Line search\<close>

definition line_grad :: "array2 \<Rightarrow> array2 \<Rightarrow> real" where
  "line_grad x p = matmul (transpose (grad x delta_default)) (normalize p) ! 0 ! 0"

text \<open>
  The first loop of \<open>my_line_search\<close>: \<open>lb\<close> is multiplied by \<open>feeler_step\<close> while
  the directional derivatives at \<open>x\<close> and at \<open>x + lb*p\<close> have a positive product; the
  counter \<open>i\<close> is checked after each multiplication.
\<close>

function expansion ::
  "array2 \<Rightarrow> array2 \<Rightarrow> real \<Rightarrow> real \<Rightarrow> int \<Rightarrow> real \<Rightarrow> int \<Rightarrow> error + real" where
  "expansion x p lgla feeler_step max_iters lb i =
     (if lgla * line_grad (add2 x (smul2 lb p)) p > 0
      then (if i + 1 \<ge> max_iters then Inl (TimeoutError ''Timed out in bounds expansion'')
            else expansion x p lgla feeler_step max_iters (lb * feeler_step) (i + 1))
      else Inr lb)"
  by pat_completeness auto
termination
  by (relation "measure (\<lambda>(x, p, lgla, feeler_step, max_iters, lb, i). nat (max_iters - i))") auto

declare expansion.simps [simp del]

text \<open>
  The body of the second loop up to the counter: from the bracket \<open>(lmax, lmin)\<close> it
  gives the new \<open>(lmax, lmin, lnew)\<close>.
\<close>

definition bisect_body :: "array2 \<Rightarrow> array2 \<Rightarrow> real \<Rightarrow> real \<Rightarrow> real \<times> real \<times> real" where
  "bisect_body x p lmax lmin =
     (let lnew = (lmax + lmin) / 2
      in if line_grad (add2 x (smul2 lnew p)) p > 0 then (lnew, lmin, lnew)
         else (lmax, lnew, lnew))"

text \<open>
  The second loop.  \<open>lnew\<close> is a local variable that is bound only by the loop body, so
  it is carried as an option: \<open>None\<close> while it is unbound.
\<close>

function bisection ::
  "array2 \<Rightarrow> array2 \<Rightarrow> real \<Rightarrow> int \<Rightarrow> real \<Rightarrow> real \<Rightarrow> real option \<Rightarrow> int
     \<Rightarrow> error + (real \<times> real \<times> real option)" where
  "bisection x p tolerance max_iters lmax lmin lnew i =
     (if lmax - lmin > tolerance
      then (if i + 1 \<ge> max_iters then Inl (TimeoutError ''Timed out in binary search'')
            else bisection x p tolerance max_iters
                   (fst (bisect_body x p lmax lmin)) (fst (snd (bisect_body x p lmax lmin)))
                   (Some (snd (snd (bisect_body x p lmax lmin)))) (i + 1))
      else Inr (lmax, lmin, lnew))"
  by pat_completeness auto
termination
  by (relation "measure (\<lambda>(x, p, tolerance, max_iters, lmax, lmin, lnew, i). nat (max_iters - i))")
    auto

declare bisection.simps [simp del]

text \<open>The bracket \<open>(lmax, lmin)\<close> after \<open>k\<close> runs of the loop body.\<close>

fun bracket_after :: "array2 \<Rightarrow> array2 \<Rightarrow> real \<Rightarrow> real \<Rightarrow> nat \<Rightarrow> real \<times> real" where
  "bracket_after x p lmax lmin 0 = (lmax, lmin)"
| "bracket_after x p lmax lmin (Suc k) =
     bracket_after x p (fst (bisect_body x p lmax lmin)) (fst (snd (bisect_body x p lmax lmin))) k"

definition my_line_search ::
  "array2 \<Rightarrow> array2 \<Rightarrow> real \<Rightarrow> real \<Rightarrow> real \<Rightarrow> int \<Rightarrow> error + array2" where
  "my_line_search x p feeler_init feeler_step tolerance max_iters =
     (let la = 0;
          lgla = line_grad x p;
          lb = - line_grad x p * feeler_init
      in case expansion x p lgla feeler_step max_iters lb 0 of
           Inl e \<Rightarrow> Inl e
         | Inr lb' \<Rightarrow>
             (case bisection x p tolerance max_iters (max la lb') (min la lb') None 0 of
                Inl e \<Rightarrow> Inl e
              | Inr (lmax, lmin, lnew) \<Rightarrow>
                  (case lnew of
                     None \<Rightarrow> Inl (UnboundLocalError ''lnew'')
                   | Some l \<Rightarrow> Inr (add2 x (smul2 l p)))))"

text \<open>The default arguments of \<open>my_line_search\<close>.\<close>

definition feeler_init_default :: real where "feeler_init_default = 1 / 10 ^ 3"
definition feeler_step_default :: real where "feeler_step_default = 2"
definition tolerance_default :: real where "tolerance_default = 1 / 10 ^ 7"
definition max_iters_default :: int where "max_iters_default = 1000"

section \<open>The conjugate gradient iteration\<close>

definition p0 :: array2 where "p0 = grad x0 delta_default"

definition get_next_x :: "array2 \<Rightarrow> array2 \<Rightarrow> error + array2" where
  "get_next_x this_x this_p =
     my_line_search this_x this_p feeler_init_default feeler_step_default tolerance_default
       max_iters_default"

definition get_next_p :: "array2 \<Rightarrow> array2 \<Rightarrow> array2 \<Rightarrow> array2" where
  "get_next_p this_x next_x this_p =
     (let numer = matmul (transpose (sub2 (grad next_x delta_default) (grad this_x delta_default)))
                    (grad next_x delta_default);
          denom = matmul (transpose (grad this_x delta_default)) (grad this_x delta_default)
      in add2 (grad next_x delta_default) (bmul (div11 numer denom) this_p))"

text \<open>
  The loop of the last cell, from \<open>i\<close> on; \<open>x_ts\<close> and \<open>p_ts\<close> are the lists it appends
  to.  An exception of the line search ends the run.
\<close>

function iterate ::
  "int \<Rightarrow> int \<Rightarrow> array2 \<Rightarrow> array2 \<Rightarrow> array2 list \<Rightarrow> array2 list
     \<Rightarrow> error + (array2 list \<times> array2 list)" where
  "iterate n_iters i this_x this_p x_ts p_ts =
     (if i < n_iters
      then (case get_next_x this_x this_p of
              Inl e \<Rightarrow> Inl e
            | Inr next_x \<Rightarrow>
                iterate n_iters (i + 1) next_x (get_next_p this_x next_x this_p)
                  (x_ts @ [next_x]) (p_ts @ [get_next_p this_x next_x this_p]))
      else Inr (x_ts, p_ts))"
  by pat_completeness auto
termination
  by (relation "measure (\<lambda>(n_iters, i, this_x, this_p, x_ts, p_ts). nat (n_iters - i))") auto

declare iterate.simps [simp del]

text \<open>
  The run of the last cell from a start point \<open>start\<close> with \<open>n_iters\<close> iterations: the
  initial direction is the gradient at the start point, both lists start with the initial
  pair, and the counter starts at 1.
\<close>

definition run :: "int \<Rightarrow> array2 \<Rightarrow> error + (array2 list \<times> array2 list)" where
  "run n_iters start =
     (let this_x = start; this_p = grad start delta_default
      in iterate n_iters 1 this_x this_p [this_x] [this_p])"

section \<open>Reference formulas\<close>

text \<open>
  The formulas the implementation is compared with: the analytical gradient
  \<open>(4a(x-1)\<^sup>3, 2(y-2), 4b(z-1)\<^sup>3)\<close> of the cost function, and the Polak-Ribiere
  coefficient written with inner products.
\<close>

definition grad_analytic :: "array2 \<Rightarrow> array2" where
  "grad_analytic x =
     [[4 * a * (x ! 0 ! 0 - 1) ^ 3], [2 * (x ! 1 ! 0 - 2)], [4 * b * (x ! 2 ! 0 - 1) ^ 3]]"

definition dot :: "array2 \<Rightarrow> array2 \<Rightarrow> real" where
  "dot u v = sum_list (map2 (*) (concat u) (concat v))"

definition polak_ribiere_beta :: "array2 \<Rightarrow> array2 \<Rightarrow> real" where
  "polak_ribiere_beta g_new g_old = dot (sub2 g_new g_old) g_new / dot g_old g_old"

section \<open>Arrays of shape (3, 1)\<close>

lemmas array_defs = shape_def ones_def eye_def matmul_def add2_def add1_def sub2_def sub1_def
  smul2_def smul1_def ssub1_def pow1_def sdiv1_def sdiv2_def reshape_def div11_def bmul_def

lemma upt3: "[0..<3] = [0, 1, 2]"
  by (simp add: upt_rec numeral_3_eq_3)

lemma f_col: "f [[u], [v], [w]] = [a * (u - 1) ^ 4 + (v - 2)\<^sup>2 + b * (w - 1) ^ 4]"
  by (simp add: f_def array_defs)

lemma grad_col:
  "grad [[u], [v], [w]] d =
     [[(hd (f [[u + d], [v], [w]]) - hd (f [[u], [v], [w]])) / d],
      [(hd (f [[u], [v + d], [w]]) - hd (f [[u], [v], [w]])) / d],
      [(hd (f [[u], [v], [w + d]]) - hd (f [[u], [v], [w]])) / d]]"
  by (simp add: grad_def f_def array_defs Let_def upt3)

lemma add2_col: "add2 [[u], [v], [w]] [[u'], [v'], [w']] = [[u + u'], [v + v'], [w + w']]"
  by (simp add: array_defs)

lemma sub2_col: "sub2 [[u], [v], [w]] [[u'], [v'], [w']] = [[u - u'], [v - v'], [w - w']]"
  by (simp add: array_defs)

lemma smul2_col: "smul2 c [[u], [v], [w]] = [[c * u], [c * v], [c * w]]"
  by (simp add: array_defs)

lemma linalg_norm_col: "linalg_norm [[u], [v], [w]] = sqrt (u\<^sup>2 + v\<^sup>2 + w\<^sup>2)"
  by (simp add: linalg_norm_def)

lemma step_zero: "add2 [[u], [v], [w]] (smul2 0 [[pu], [pv], [pw]]) = [[u], [v], [w]]"
  by (simp add: add2_col smul2_col)

lemma dot_col: "dot [[u], [v], [w]] [[u'], [v'], [w']] = u * u' + v * v' + w * w'"
  by (simp add: dot_def)

lemma inner_col:
  "matmul [[u, v, w]] [[u'], [v'], [w']] = [[dot [[u], [v], [w]] [[u'], [v'], [w']]]]"
  by (simp add: matmul_def dot_def)

text \<open>Along the second coordinate axis everything is rational.\<close>

lemma line_grad_y:
  "line_grad [[u], [v], [w]] [[0], [c], [0]] = sgn c * (2 * (v - 2) + delta_default)"
proof -
  have g: "(hd (f [[u], [v + delta_default], [w]]) - hd (f [[u], [v], [w]])) / delta_default
      = 2 * (v - 2) + delta_default"
    by (simp add: f_col delta_default_def power2_eq_square field_simps)
  show ?thesis
    by (simp add: line_grad_def grad_col g normalize_def linalg_norm_col Let_def array_defs
        sgn_real_def)
qed

lemma step_y: "add2 [[u], [v], [w]] (smul2 l [[0], [c], [0]]) = [[u], [v + l * c], [w]]"
  by (simp add: add2_col smul2_col)

lemma line_grad_zero: "line_grad [[u], [v], [w]] [[0], [0], [0]] = 0"
  using line_grad_y [of u v w 0] by simp

lemmas ls_eval = my_line_search_def expansion.simps bisection.simps bisect_body_def step_y
  line_grad_y delta_default_def feeler_init_default_def feeler_step_default_def
  tolerance_default_def max_iters_default_def Let_def

section \<open>The two loops of the line search\<close>

lemma all_int_less_shift:
  "1 \<le> m \<Longrightarrow> (\<forall>k. int k < m \<longrightarrow> Q k) \<longleftrightarrow> (Q 0 \<and> (\<forall>k. int k < m - 1 \<longrightarrow> Q (Suc k)))"
proof
  assume m: "1 \<le> m" and h: "\<forall>k. int k < m \<longrightarrow> Q k"
  show "Q 0 \<and> (\<forall>k. int k < m - 1 \<longrightarrow> Q (Suc k))"
    using m h by auto
next
  assume m: "1 \<le> m" and h: "Q 0 \<and> (\<forall>k. int k < m - 1 \<longrightarrow> Q (Suc k))"
  show "\<forall>k. int k < m \<longrightarrow> Q k"
  proof (intro allI impI)
    fix k assume "int k < m"
    then show "Q k" using h by (cases k) auto
  qed
qed


lemma expansion_Inr:
  "expansion x p lgla fs mi lb i = Inr lb' \<Longrightarrow>
     lgla * line_grad (add2 x (smul2 lb' p)) p \<le> 0 \<and>
     (\<exists>k. lb' = lb * fs ^ k \<and> (k = 0 \<or> int k < mi - i) \<and>
          (\<forall>j<k. 0 < lgla * line_grad (add2 x (smul2 (lb * fs ^ j) p)) p))"
proof (induction x p lgla fs mi lb i rule: expansion.induct)
  case (1 x p lgla fs mi lb i)
  let ?P = "\<lambda>l. 0 < lgla * line_grad (add2 x (smul2 l p)) p"
  show ?case
  proof (cases "?P lb")
    case False
    with "1.prems" have "lb' = lb" by (subst (asm) expansion.simps) simp
    with False show ?thesis by (auto intro!: exI [of _ 0])
  next
    case True
    have unf: "expansion x p lgla fs mi lb i =
        (if mi \<le> i + 1 then Inl (TimeoutError ''Timed out in bounds expansion'')
         else expansion x p lgla fs mi (lb * fs) (i + 1))"
      using True by (subst expansion.simps) simp
    from "1.prems" unf have go: "\<not> mi \<le> i + 1"
      by (auto split: if_splits)
    from "1.prems" unf go have r: "expansion x p lgla fs mi (lb * fs) (i + 1) = Inr lb'"
      by simp
    from "1.IH" [OF True go r] obtain k where
      le: "lgla * line_grad (add2 x (smul2 lb' p)) p \<le> 0" and
      k: "lb' = lb * fs * fs ^ k" "k = 0 \<or> int k < mi - (i + 1)"
         "\<forall>j<k. ?P (lb * fs * fs ^ j)"
      by blast
    have "\<forall>j<Suc k. ?P (lb * fs ^ j)"
    proof (intro allI impI)
      fix j assume "j < Suc k"
      then show "?P (lb * fs ^ j)"
        using True k(3) by (cases j) (auto simp: mult.assoc)
    qed
    moreover have "lb' = lb * fs ^ Suc k" using k(1) by (simp add: mult.assoc)
    moreover have "int (Suc k) < mi - i" using k(2) go by auto
    ultimately show ?thesis using le by blast
  qed
qed

lemma bisect_body_eq:
  "bisect_body x p hi lo =
     (if 0 < line_grad (add2 x (smul2 ((hi + lo) / 2) p)) p then ((hi + lo) / 2, lo, (hi + lo) / 2)
      else (hi, (hi + lo) / 2, (hi + lo) / 2))"
  by (simp add: bisect_body_def Let_def)

lemma bisect_body_width:
  "fst (bisect_body x p hi lo) - fst (snd (bisect_body x p hi lo)) = (hi - lo) / 2"
  by (simp add: bisect_body_eq field_simps)

lemma bisect_body_lnew: "snd (snd (bisect_body x p hi lo)) = (hi + lo) / 2"
  by (simp add: bisect_body_eq)

lemma bracket_after_width:
  "fst (bracket_after x p hi lo k) - snd (bracket_after x p hi lo k) = (hi - lo) / 2 ^ k"
  by (induction k arbitrary: hi lo) (simp_all add: bisect_body_width)

lemma bracket_after_step:
  "bracket_after x p hi lo (Suc k) =
     (fst (bisect_body x p (fst (bracket_after x p hi lo k)) (snd (bracket_after x p hi lo k))),
      fst (snd (bisect_body x p (fst (bracket_after x p hi lo k)) (snd (bracket_after x p hi lo k)))))"
proof (induction k arbitrary: hi lo)
  case 0
  show ?case by simp
next
  case (Suc k)
  show ?case
    using Suc [of "fst (bisect_body x p hi lo)" "fst (snd (bisect_body x p hi lo))"] by simp
qed

lemma bracket_after_nested:
  "lo \<le> hi \<Longrightarrow> lo \<le> snd (bracket_after x p hi lo k) \<and>
     snd (bracket_after x p hi lo k) \<le> fst (bracket_after x p hi lo k) \<and>
     fst (bracket_after x p hi lo k) \<le> hi"
proof (induction k arbitrary: hi lo)
  case 0
  then show ?case by simp
next
  case (Suc k)
  let ?h = "fst (bisect_body x p hi lo)" and ?l = "fst (snd (bisect_body x p hi lo))"
  have b: "lo \<le> ?l" "?l \<le> ?h" "?h \<le> hi"
    using Suc.prems by (auto simp: bisect_body_eq)
  from Suc.IH [OF b(2)] b show ?case by simp
qed

lemma bracket_after_sign:
  "line_grad (add2 x (smul2 lo p)) p \<le> 0 \<Longrightarrow> 0 \<le> line_grad (add2 x (smul2 hi p)) p \<Longrightarrow>
     line_grad (add2 x (smul2 (snd (bracket_after x p hi lo k)) p)) p \<le> 0 \<and>
     0 \<le> line_grad (add2 x (smul2 (fst (bracket_after x p hi lo k)) p)) p"
proof (induction k arbitrary: hi lo)
  case 0
  then show ?case by simp
next
  case (Suc k)
  let ?h = "fst (bisect_body x p hi lo)" and ?l = "fst (snd (bisect_body x p hi lo))"
  have "line_grad (add2 x (smul2 ?l p)) p \<le> 0" "0 \<le> line_grad (add2 x (smul2 ?h p)) p"
    using Suc.prems by (auto simp: bisect_body_eq)
  from Suc.IH [OF this] show ?case by simp
qed

lemma bisection_Inl_iff:
  "bisection x p tol mi hi lo lnew i = Inl e \<longleftrightarrow>
     e = TimeoutError ''Timed out in binary search'' \<and>
     (\<forall>k. int k < max 1 (mi - i) \<longrightarrow> tol < (hi - lo) / 2 ^ k)"
proof (induction x p tol mi hi lo lnew i arbitrary: e rule: bisection.induct)
  case (1 x p tol mi hi lo lnew i)
  show ?case
  proof (cases "tol < hi - lo")
    case False
    have "\<not> (\<forall>k. int k < max 1 (mi - i) \<longrightarrow> tol < (hi - lo) / 2 ^ k)"
      using False by (auto intro: exI [of _ 0])
    with False show ?thesis by (subst bisection.simps) simp
  next
    case True
    show ?thesis
    proof (cases "mi \<le> i + 1")
      case stop: True
      have "\<forall>k. int k < max 1 (mi - i) \<longrightarrow> tol < (hi - lo) / 2 ^ k"
      proof (intro allI impI)
        fix k assume "int k < max 1 (mi - i)"
        with stop have "k = 0" by auto
        with True show "tol < (hi - lo) / 2 ^ k" by simp
      qed
      with True stop show ?thesis by (subst bisection.simps) auto
    next
      case go: False
      let ?h = "fst (bisect_body x p hi lo)" and ?l = "fst (snd (bisect_body x p hi lo))"
      let ?n = "Some (snd (snd (bisect_body x p hi lo)))"
      have ih: "bisection x p tol mi ?h ?l ?n (i + 1) = Inl e \<longleftrightarrow>
          e = TimeoutError ''Timed out in binary search'' \<and>
          (\<forall>k. int k < max 1 (mi - (i + 1)) \<longrightarrow> tol < (?h - ?l) / 2 ^ k)"
        using "1.IH" [of e] True go by simp
      have m: "max 1 (mi - i) = mi - i" "max 1 (mi - (i + 1)) = mi - i - 1" "1 \<le> mi - i"
        using go by auto
      have "(\<forall>k. int k < mi - i \<longrightarrow> tol < (hi - lo) / 2 ^ k) \<longleftrightarrow>
            (tol < (hi - lo) / 2 ^ 0 \<and> (\<forall>k. int k < mi - i - 1 \<longrightarrow> tol < (hi - lo) / 2 ^ Suc k))"
        by (rule all_int_less_shift [OF m(3)])
      then have sh: "(\<forall>k. int k < mi - i \<longrightarrow> tol < (hi - lo) / 2 ^ k) \<longleftrightarrow>
            (\<forall>k. int k < mi - i - 1 \<longrightarrow> tol < (?h - ?l) / 2 ^ k)"
        using True by (simp add: bisect_body_width)
      have "bisection x p tol mi hi lo lnew i = bisection x p tol mi ?h ?l ?n (i + 1)"
        using True go by (subst bisection.simps) simp
      then show ?thesis using ih sh m by simp
    qed
  qed
qed

lemma bisection_Inr:
  "bisection x p tol mi hi lo lnew i = Inr (hi', lo', lnew') \<Longrightarrow>
     \<exists>k. (k = 0 \<or> int k < mi - i) \<and> (hi', lo') = bracket_after x p hi lo k \<and>
         hi' - lo' \<le> tol \<and> (\<forall>j<k. tol < (hi - lo) / 2 ^ j) \<and>
         (case k of 0 \<Rightarrow> lnew' = lnew
          | Suc j \<Rightarrow> lnew' = Some ((fst (bracket_after x p hi lo j) + snd (bracket_after x p hi lo j)) / 2))"
proof (induction x p tol mi hi lo lnew i rule: bisection.induct)
  case (1 x p tol mi hi lo lnew i)
  show ?case
  proof (cases "tol < hi - lo")
    case False
    with "1.prems" have "hi' = hi" "lo' = lo" "lnew' = lnew"
      by (subst (asm) bisection.simps, simp)+
    with False show ?thesis by (intro exI [of _ 0]) simp
  next
    case True
    let ?h = "fst (bisect_body x p hi lo)" and ?l = "fst (snd (bisect_body x p hi lo))"
    let ?n = "Some (snd (snd (bisect_body x p hi lo)))"
    have unf: "bisection x p tol mi hi lo lnew i =
        (if mi \<le> i + 1 then Inl (TimeoutError ''Timed out in binary search'')
         else bisection x p tol mi ?h ?l ?n (i + 1))"
      using True by (subst bisection.simps) simp
    from "1.prems" unf have go: "\<not> mi \<le> i + 1"
      by (auto split: if_splits)
    from "1.prems" unf go have r: "bisection x p tol mi ?h ?l ?n (i + 1) = Inr (hi', lo', lnew')"
      by simp
    from "1.IH" [OF True go r] obtain k where
      k: "k = 0 \<or> int k < mi - (i + 1)" "(hi', lo') = bracket_after x p ?h ?l k"
         "hi' - lo' \<le> tol" "\<forall>j<k. tol < (?h - ?l) / 2 ^ j"
         "case k of 0 \<Rightarrow> lnew' = ?n
          | Suc j \<Rightarrow> lnew' = Some ((fst (bracket_after x p ?h ?l j) + snd (bracket_after x p ?h ?l j)) / 2)"
      by blast
    have w: "\<forall>j<Suc k. tol < (hi - lo) / 2 ^ j"
    proof (intro allI impI)
      fix j assume "j < Suc k"
      then show "tol < (hi - lo) / 2 ^ j"
        using True k(4) by (cases j) (auto simp: bisect_body_width)
    qed
    have n: "lnew' = Some ((fst (bracket_after x p hi lo k) + snd (bracket_after x p hi lo k)) / 2)"
      using k(5) by (cases k) (simp_all add: bisect_body_lnew)
    have "int (Suc k) < mi - i" using k(1) go by auto
    with k(2,3) w n show ?thesis by (intro exI [of _ "Suc k"]) simp
  qed
qed

section \<open>The line search as a whole\<close>




lemma my_line_search_after_expansion:
  "expansion x p (line_grad x p) fs mi (- line_grad x p * fi) 0 = Inr lb \<Longrightarrow>
     my_line_search x p fi fs tol mi =
       (case bisection x p tol mi (max 0 lb) (min 0 lb) None 0 of
          Inl e \<Rightarrow> Inl e
        | Inr (lmax, lmin, lnew) \<Rightarrow>
            (case lnew of None \<Rightarrow> Inl (UnboundLocalError ''lnew'')
             | Some l \<Rightarrow> Inr (add2 x (smul2 l p))))"
  by (simp add: my_line_search_def Let_def)

text \<open>What a normal return of the line search means for its two loops.\<close>

lemma my_line_search_Inr:
  assumes "my_line_search x p fi fs tol mi = Inr y"
  shows "\<exists>k j. line_grad x p *
                 line_grad (add2 x (smul2 (- line_grad x p * fi * fs ^ k) p)) p \<le> 0 \<and>
           y = add2 x (smul2
                 ((fst (bracket_after x p (max 0 (- line_grad x p * fi * fs ^ k))
                          (min 0 (- line_grad x p * fi * fs ^ k)) j) +
                   snd (bracket_after x p (max 0 (- line_grad x p * fi * fs ^ k))
                          (min 0 (- line_grad x p * fi * fs ^ k)) j)) / 2) p) \<and>
           tol < fst (bracket_after x p (max 0 (- line_grad x p * fi * fs ^ k))
                        (min 0 (- line_grad x p * fi * fs ^ k)) j) -
                 snd (bracket_after x p (max 0 (- line_grad x p * fi * fs ^ k))
                        (min 0 (- line_grad x p * fi * fs ^ k)) j) \<and>
           fst (bracket_after x p (max 0 (- line_grad x p * fi * fs ^ k))
                  (min 0 (- line_grad x p * fi * fs ^ k)) (Suc j)) -
           snd (bracket_after x p (max 0 (- line_grad x p * fi * fs ^ k))
                  (min 0 (- line_grad x p * fi * fs ^ k)) (Suc j)) \<le> tol"
proof -
  let ?E = "expansion x p (line_grad x p) fs mi (- line_grad x p * fi) 0"
  obtain lb where lb: "?E = Inr lb"
    using assms by (cases ?E) (simp_all add: my_line_search_def Let_def)
  from expansion_Inr [OF lb] obtain k where
    le: "line_grad x p * line_grad (add2 x (smul2 lb p)) p \<le> 0" and
    k: "lb = - line_grad x p * fi * fs ^ k"
    by blast
  let ?B = "bisection x p tol mi (max 0 lb) (min 0 lb) None 0"
  from assms obtain hi lo l where b: "?B = Inr (hi, lo, Some l)" and y: "y = add2 x (smul2 l p)"
    unfolding my_line_search_after_expansion [OF lb]
    by (auto split: sum.splits prod.splits option.splits)
  from bisection_Inr [OF b] obtain k' where
    k': "(hi, lo) = bracket_after x p (max 0 lb) (min 0 lb) k'" "hi - lo \<le> tol"
        "\<forall>j<k'. tol < (max 0 lb - min 0 lb) / 2 ^ j"
        "case k' of 0 \<Rightarrow> Some l = None
         | Suc j \<Rightarrow> Some l = Some ((fst (bracket_after x p (max 0 lb) (min 0 lb) j) +
                                   snd (bracket_after x p (max 0 lb) (min 0 lb) j)) / 2)"
    by blast
  from k'(4) obtain j where j: "k' = Suc j"
    and l: "l = (fst (bracket_after x p (max 0 lb) (min 0 lb) j) +
                 snd (bracket_after x p (max 0 lb) (min 0 lb) j)) / 2"
    by (cases k') simp_all
  from k'(3) j have "tol < (max 0 lb - min 0 lb) / 2 ^ j" by simp
  then have w: "tol < fst (bracket_after x p (max 0 lb) (min 0 lb) j) -
                      snd (bracket_after x p (max 0 lb) (min 0 lb) j)"
    by (simp only: bracket_after_width)
  have "fst (bracket_after x p (max 0 lb) (min 0 lb) (Suc j)) = hi"
       "snd (bracket_after x p (max 0 lb) (min 0 lb) (Suc j)) = lo"
    using k'(1) j by (metis fst_conv, metis snd_conv)
  with k'(2) have e: "fst (bracket_after x p (max 0 lb) (min 0 lb) (Suc j)) -
      snd (bracket_after x p (max 0 lb) (min 0 lb) (Suc j)) \<le> tol"
    by simp
  from le y l w e show ?thesis
    unfolding k by blast
qed


lemma mid_in_bracket:
  assumes "tol < fst (bracket_after x p (max 0 lb) (min 0 lb) j) -
                 snd (bracket_after x p (max 0 lb) (min 0 lb) j)"
  shows "\<bar>(fst (bracket_after x p (max 0 lb) (min 0 lb) j) +
           snd (bracket_after x p (max 0 lb) (min 0 lb) j)) / 2\<bar> \<le> \<bar>lb\<bar>"
    and "0 \<le> tol \<Longrightarrow> (fst (bracket_after x p (max 0 lb) (min 0 lb) j) +
           snd (bracket_after x p (max 0 lb) (min 0 lb) j)) / 2 \<noteq> 0"
proof -
  have "min 0 lb \<le> max 0 lb" by simp
  from bracket_after_nested [OF this, of x p j]
  have n: "min 0 lb \<le> snd (bracket_after x p (max 0 lb) (min 0 lb) j)"
      "snd (bracket_after x p (max 0 lb) (min 0 lb) j) \<le> fst (bracket_after x p (max 0 lb) (min 0 lb) j)"
      "fst (bracket_after x p (max 0 lb) (min 0 lb) j) \<le> max 0 lb"
    by simp_all
  from n show "\<bar>(fst (bracket_after x p (max 0 lb) (min 0 lb) j) +
           snd (bracket_after x p (max 0 lb) (min 0 lb) j)) / 2\<bar> \<le> \<bar>lb\<bar>"
    by (cases "0 \<le> lb") (simp_all add: max_def min_def abs_if split: if_splits)
  assume "0 \<le> tol"
  with assms n show "(fst (bracket_after x p (max 0 lb) (min 0 lb) j) +
           snd (bracket_after x p (max 0 lb) (min 0 lb) j)) / 2 \<noteq> 0"
    by (cases "0 \<le> lb") (simp_all add: max_def min_def split: if_splits)
qed

lemma my_line_search_moves:
  assumes "my_line_search x p fi fs tol mi = Inr y" and "0 \<le> tol"
  shows "\<exists>t. t \<noteq> 0 \<and> y = add2 x (smul2 t p)"
proof -
  from my_line_search_Inr [OF assms(1)] obtain k j where
    y: "y = add2 x (smul2
                 ((fst (bracket_after x p (max 0 (- line_grad x p * fi * fs ^ k))
                          (min 0 (- line_grad x p * fi * fs ^ k)) j) +
                   snd (bracket_after x p (max 0 (- line_grad x p * fi * fs ^ k))
                          (min 0 (- line_grad x p * fi * fs ^ k)) j)) / 2) p)" and
    w: "tol < fst (bracket_after x p (max 0 (- line_grad x p * fi * fs ^ k))
                        (min 0 (- line_grad x p * fi * fs ^ k)) j) -
                 snd (bracket_after x p (max 0 (- line_grad x p * fi * fs ^ k))
                        (min 0 (- line_grad x p * fi * fs ^ k)) j)"
    by blast
  from mid_in_bracket(2) [OF w assms(2)] y show ?thesis by blast
qed

lemma initial_bracket_sign:
  assumes le: "line_grad [[u], [v], [w]] [[pu], [pv], [pw]] *
               line_grad (add2 [[u], [v], [w]] (smul2 lb [[pu], [pv], [pw]])) [[pu], [pv], [pw]] \<le> 0"
    and lb: "lb = - line_grad [[u], [v], [w]] [[pu], [pv], [pw]] * c" and c: "0 < c"
  shows "line_grad (add2 [[u], [v], [w]] (smul2 (min 0 lb) [[pu], [pv], [pw]])) [[pu], [pv], [pw]] \<le> 0 \<and>
         0 \<le> line_grad (add2 [[u], [v], [w]] (smul2 (max 0 lb) [[pu], [pv], [pw]])) [[pu], [pv], [pw]]"
proof -
  let ?x = "[[u], [v], [w]]" and ?p = "[[pu], [pv], [pw]]"
  let ?g = "\<lambda>l. line_grad (add2 ?x (smul2 l ?p)) ?p"
  have z: "?g 0 = line_grad ?x ?p" by (simp only: step_zero)
  consider "0 < line_grad ?x ?p" | "line_grad ?x ?p < 0" | "line_grad ?x ?p = 0"
    by linarith
  then show ?thesis
  proof cases
    case 1
    with lb c have "lb < 0" by (simp add: zero_less_mult_iff mult_less_0_iff)
    then have m: "min 0 lb = lb" "max 0 lb = 0" by simp_all
    from le 1 have "?g lb \<le> 0" by (simp add: mult_le_0_iff)
    with 1 z show ?thesis unfolding m by simp
  next
    case 2
    with lb c have "0 < lb" by (simp add: zero_less_mult_iff mult_less_0_iff)
    then have m: "min 0 lb = 0" "max 0 lb = lb" by simp_all
    from le 2 have "0 \<le> ?g lb" by (simp add: mult_le_0_iff)
    with 2 z show ?thesis unfolding m by simp
  next
    case 3
    with lb have "lb = 0" by simp
    with 3 z show ?thesis by simp
  qed
qed

text \<open>A run of the line search with the default arguments, along the second axis.\<close>

lemma ls_x0_300:
  "my_line_search x0 [[0], [300], [0]] feeler_init_default feeler_step_default tolerance_default
     max_iters_default = Inr [[2], [6553619836161 / 3276800000000], [2]]"
  by (simp add: ls_eval x0_def)

text \<open>The second loop either times out or stops after a definite number of halvings.\<close>

lemma bisection_cases:
  "(\<forall>j. int j < max 1 (mi - i) \<longrightarrow> tol < (hi - lo) / 2 ^ j) \<and>
     bisection x p tol mi hi lo lnew i = Inl (TimeoutError ''Timed out in binary search'') \<or>
   (\<exists>j. (j = 0 \<or> int j < mi - i) \<and> (hi - lo) / 2 ^ j \<le> tol \<and>
        (\<forall>m<j. tol < (hi - lo) / 2 ^ m) \<and>
        bisection x p tol mi hi lo lnew i =
          Inr (fst (bracket_after x p hi lo j), snd (bracket_after x p hi lo j),
               (case j of 0 \<Rightarrow> lnew
                | Suc m \<Rightarrow> Some ((fst (bracket_after x p hi lo m) +
                                    snd (bracket_after x p hi lo m)) / 2))))"
proof (cases "bisection x p tol mi hi lo lnew i")
  case (Inl e)
  then show ?thesis
    using bisection_Inl_iff [of x p tol mi hi lo lnew i e] by simp
next
  case (Inr r)
  obtain h l n where r: "r = (h, l, n)" by (cases r)
  from bisection_Inr [OF Inr [unfolded r]] obtain k where
    k: "k = 0 \<or> int k < mi - i" "(h, l) = bracket_after x p hi lo k" "h - l \<le> tol"
       "\<forall>j<k. tol < (hi - lo) / 2 ^ j"
       "case k of 0 \<Rightarrow> n = lnew
        | Suc j \<Rightarrow> n = Some ((fst (bracket_after x p hi lo j) +
                                snd (bracket_after x p hi lo j)) / 2)"
    by blast
  from k(2) have hl: "h = fst (bracket_after x p hi lo k)" "l = snd (bracket_after x p hi lo k)"
    by (metis fst_conv, metis snd_conv)
  from k(3) hl have w: "(hi - lo) / 2 ^ k \<le> tol"
    using bracket_after_width [of x p hi lo k] by simp
  have n: "n = (case k of 0 \<Rightarrow> lnew
                | Suc m \<Rightarrow> Some ((fst (bracket_after x p hi lo m) +
                                    snd (bracket_after x p hi lo m)) / 2))"
    using k(5) by (cases k) simp_all
  from Inr r hl n k(1,4) w show ?thesis by blast
qed

text \<open>
  A normal return of the line search fixes the number of multiplications of the first loop,
  the number of halvings of the second, and with them the point returned.
\<close>

lemma my_line_search_Inr_exact:
  assumes "my_line_search x p fi fs tol mi = Inr y"
  shows "\<exists>k j. (\<forall>i<k. 0 < line_grad x p *
                     line_grad (add2 x (smul2 (- line_grad x p * fi * fs ^ i) p)) p) \<and>
           line_grad x p * line_grad (add2 x (smul2 (- line_grad x p * fi * fs ^ k) p)) p \<le> 0 \<and>
           (\<forall>i\<le>j. tol < \<bar>- line_grad x p * fi * fs ^ k\<bar> / 2 ^ i) \<and>
           \<bar>- line_grad x p * fi * fs ^ k\<bar> / 2 ^ Suc j \<le> tol \<and>
           y = add2 x (smul2
                 ((fst (bracket_after x p (max 0 (- line_grad x p * fi * fs ^ k))
                          (min 0 (- line_grad x p * fi * fs ^ k)) j) +
                   snd (bracket_after x p (max 0 (- line_grad x p * fi * fs ^ k))
                          (min 0 (- line_grad x p * fi * fs ^ k)) j)) / 2) p)"
proof -
  let ?E = "expansion x p (line_grad x p) fs mi (- line_grad x p * fi) 0"
  obtain lb where lb: "?E = Inr lb"
    using assms by (cases ?E) (simp_all add: my_line_search_def Let_def)
  from expansion_Inr [OF lb] obtain k where
    le: "line_grad x p * line_grad (add2 x (smul2 lb p)) p \<le> 0" and
    k: "lb = - line_grad x p * fi * fs ^ k" and
    pos: "\<forall>i<k. 0 < line_grad x p * line_grad (add2 x (smul2 (- line_grad x p * fi * fs ^ i) p)) p"
    by blast
  let ?B = "bracket_after x p (max 0 lb) (min 0 lb)"
  have w0: "max 0 lb - min 0 lb = \<bar>lb\<bar>" by (simp add: max_def min_def)
  from bisection_cases [of mi 0 tol "max 0 lb" "min 0 lb" x p None]
  have "\<exists>j. \<bar>lb\<bar> / 2 ^ Suc j \<le> tol \<and> (\<forall>m<Suc j. tol < \<bar>lb\<bar> / 2 ^ m) \<and>
          y = add2 x (smul2 ((fst (?B j) + snd (?B j)) / 2) p)"
  proof
    assume "(\<forall>j. int j < max 1 (mi - 0) \<longrightarrow> tol < (max 0 lb - min 0 lb) / 2 ^ j) \<and>
        bisection x p tol mi (max 0 lb) (min 0 lb) None 0 =
          Inl (TimeoutError ''Timed out in binary search'')"
    with assms show ?thesis
      unfolding my_line_search_after_expansion [OF lb] by simp
  next
    assume "\<exists>j. (j = 0 \<or> int j < mi - 0) \<and> (max 0 lb - min 0 lb) / 2 ^ j \<le> tol \<and>
        (\<forall>m<j. tol < (max 0 lb - min 0 lb) / 2 ^ m) \<and>
        bisection x p tol mi (max 0 lb) (min 0 lb) None 0 =
          Inr (fst (?B j), snd (?B j),
               (case j of 0 \<Rightarrow> None | Suc m \<Rightarrow> Some ((fst (?B m) + snd (?B m)) / 2)))"
    then obtain j' where
      j': "\<bar>lb\<bar> / 2 ^ j' \<le> tol" "\<forall>m<j'. tol < \<bar>lb\<bar> / 2 ^ m" and
      b: "bisection x p tol mi (max 0 lb) (min 0 lb) None 0 =
          Inr (fst (?B j'), snd (?B j'),
               (case j' of 0 \<Rightarrow> None | Suc m \<Rightarrow> Some ((fst (?B m) + snd (?B m)) / 2)))"
      unfolding w0 by blast
    show ?thesis
    proof (cases j')
      case 0
      with assms b show ?thesis
        unfolding my_line_search_after_expansion [OF lb] by simp
    next
      case (Suc j)
      with assms b have "y = add2 x (smul2 ((fst (?B j) + snd (?B j)) / 2) p)"
        unfolding my_line_search_after_expansion [OF lb] by simp
      with j' Suc show ?thesis by blast
    qed
  qed
  then obtain j where
    j: "\<bar>lb\<bar> / 2 ^ Suc j \<le> tol" "\<forall>m<Suc j. tol < \<bar>lb\<bar> / 2 ^ m"
       "y = add2 x (smul2 ((fst (?B j) + snd (?B j)) / 2) p)"
    by blast
  from j(2) have "\<forall>i\<le>j. tol < \<bar>lb\<bar> / 2 ^ i" by (simp add: less_Suc_eq_le)
  with pos le j(1,3) show ?thesis unfolding k by blast
qed

lemma normalize_scale:
  assumes "0 < c"
  shows "normalize (smul2 c [[pu], [pv], [pw]]) = normalize [[pu], [pv], [pw]]"
proof -
  let ?n = "sqrt (pu\<^sup>2 + pv\<^sup>2 + pw\<^sup>2)"
  have "(c * pu)\<^sup>2 + (c * pv)\<^sup>2 + (c * pw)\<^sup>2 = c\<^sup>2 * (pu\<^sup>2 + pv\<^sup>2 + pw\<^sup>2)"
    by (simp add: power_mult_distrib distrib_left)
  then have n: "linalg_norm (smul2 c [[pu], [pv], [pw]]) = c * ?n"
    using assms by (simp add: smul2_col linalg_norm_col real_sqrt_mult)
  show ?thesis
  proof (cases "?n = 0")
    case True
    then have "pu\<^sup>2 + pv\<^sup>2 + pw\<^sup>2 = 0" by simp
    then have "pu = 0" "pv = 0" "pw = 0"
      by (simp_all add: add_nonneg_eq_0_iff)
    then show ?thesis
      by (simp add: normalize_def smul2_col linalg_norm_col Let_def)
  next
    case False
    with assms have "c * ?n \<noteq> 0" by simp
    with False assms show ?thesis
      unfolding normalize_def Let_def n
      by (simp add: linalg_norm_col smul2_col sdiv2_def sdiv1_def)
  qed
qed

lemma line_grad_scale:
  "0 < c \<Longrightarrow> line_grad z (smul2 c [[pu], [pv], [pw]]) = line_grad z [[pu], [pv], [pw]]"
  by (simp only: line_grad_def normalize_scale)

lemma normalize_y: "normalize [[0], [c], [0]] = [[0], [sgn c], [0]]"
  by (simp add: normalize_def linalg_norm_col Let_def sdiv2_def sdiv1_def sgn_real_def)

section \<open>The iteration\<close>

lemma take_Suc_snoc_iff:
  assumes "length xs = m"
  shows "take (Suc m) X = xs @ [z] \<longleftrightarrow> m < length X \<and> take m X = xs \<and> X ! m = z"
proof
  assume t: "take (Suc m) X = xs @ [z]"
  then have "length (take (Suc m) X) = Suc m" using assms by simp
  then have l: "m < length X" by simp
  then have "take (Suc m) X = take m X @ [X ! m]" by (rule take_Suc_conv_app_nth)
  with t have "take m X @ [X ! m] = xs @ [z]" by simp
  with l show "m < length X \<and> take m X = xs \<and> X ! m = z" by simp
next
  assume "m < length X \<and> take m X = xs \<and> X ! m = z"
  then show "take (Suc m) X = xs @ [z]" by (simp add: take_Suc_conv_app_nth)
qed

lemma nth_last_take:
  assumes "take m X = xs" "length xs = m" "xs \<noteq> []"
  shows "X ! (m - 1) = last xs"
proof -
  from assms have "0 < m" by auto
  then have m: "m - 1 < m" by simp
  have "last xs = xs ! (m - 1)" using assms by (simp add: last_conv_nth)
  also have "\<dots> = X ! (m - 1)" using assms(1) m by (metis nth_take)
  finally show ?thesis by simp
qed

lemma iterate_iff:
  assumes "length xs = length ps" "xs \<noteq> []" "last xs = x" "last ps = p" "int (length xs) = i"
  shows "iterate n i x p xs ps = Inr (X, P) \<longleftrightarrow>
           length X = nat (max n i) \<and> length P = nat (max n i) \<and>
           take (length xs) X = xs \<and> take (length xs) P = ps \<and>
           (\<forall>k. length xs \<le> Suc k \<and> Suc k < nat (max n i) \<longrightarrow>
                get_next_x (X ! k) (P ! k) = Inr (X ! Suc k) \<and>
                P ! Suc k = get_next_p (X ! k) (X ! Suc k) (P ! k))"
  using assms
proof (induction n i x p xs ps rule: iterate.induct)
  case (1 n i x p xs ps)
  define m where "m = length xs"
  let ?step = "\<lambda>k. get_next_x (X ! k) (P ! k) = Inr (X ! Suc k) \<and>
                P ! Suc k = get_next_p (X ! k) (X ! Suc k) (P ! k)"
  have lx: "length xs = m" by (simp add: m_def)
  have lp: "length ps = m" using "1.prems"(1) by (simp add: m_def)
  have mi: "int m = i" using "1.prems"(5) by (simp add: m_def)
  have m0: "0 < m" using "1.prems"(2) by (simp add: m_def)
  have pne: "ps \<noteq> []" using lp m0 by auto
  have pred: "m - 1 < m" "Suc (m - 1) = m" using m0 by simp_all
  have lastx: "take m X = xs \<Longrightarrow> X ! (m - 1) = x"
    using nth_last_take [of m X xs] lx "1.prems"(2,3) by blast
  have lastp: "take m P = ps \<Longrightarrow> P ! (m - 1) = p"
    using nth_last_take [of m P ps] lp pne "1.prems"(4) by blast
  have "iterate n i x p xs ps = Inr (X, P) \<longleftrightarrow>
           length X = nat (max n i) \<and> length P = nat (max n i) \<and>
           take m X = xs \<and> take m P = ps \<and>
           (\<forall>k. m \<le> Suc k \<and> Suc k < nat (max n i) \<longrightarrow> ?step k)"
  proof (cases "i < n")
    case False
    then have it: "iterate n i x p xs ps = Inr (xs, ps)"
      by (subst iterate.simps) simp
    from False mi have mx: "nat (max n i) = m" by (auto simp: max_def)
    have "xs = X \<and> ps = P \<longleftrightarrow>
        length X = m \<and> length P = m \<and> take m X = xs \<and> take m P = ps"
      using lx lp by auto
    then show ?thesis unfolding it mx by auto
  next
    case True
    with mi have mx: "nat (max n i) = nat n" and lt: "m < nat n"
      by (auto simp: max_def)
    have stepm: "?step (m - 1)" if "\<forall>k. m \<le> Suc k \<and> Suc k < nat n \<longrightarrow> ?step k"
    proof -
      have "m \<le> Suc (m - 1) \<and> Suc (m - 1) < nat n" using pred lt by simp
      with that show ?thesis by blast
    qed
    show ?thesis
    proof (cases "get_next_x x p")
      case (Inl e)
      with True have it: "iterate n i x p xs ps = Inl e"
        by (subst iterate.simps) simp
      have "\<not> (take m X = xs \<and> take m P = ps \<and> (\<forall>k. m \<le> Suc k \<and> Suc k < nat n \<longrightarrow> ?step k))"
      proof
        assume h: "take m X = xs \<and> take m P = ps \<and> (\<forall>k. m \<le> Suc k \<and> Suc k < nat n \<longrightarrow> ?step k)"
        then have xp: "X ! (m - 1) = x" "P ! (m - 1) = p"
          using lastx lastp by blast+
        from h have "?step (m - 1)" using stepm by blast
        with xp have "get_next_x x p = Inr (X ! Suc (m - 1))" by simp
        with Inl show False by simp
      qed
      then show ?thesis unfolding it mx by blast
    next
      case (Inr x')
      let ?p' = "get_next_p x x' p"
      from True Inr have it: "iterate n i x p xs ps =
          iterate n (i + 1) x' ?p' (xs @ [x']) (ps @ [?p'])"
        by (subst iterate.simps) simp
      have ih: "iterate n (i + 1) x' ?p' (xs @ [x']) (ps @ [?p']) = Inr (X, P) \<longleftrightarrow>
           length X = nat n \<and> length P = nat n \<and>
           take (Suc m) X = xs @ [x'] \<and> take (Suc m) P = ps @ [?p'] \<and>
           (\<forall>k. Suc m \<le> Suc k \<and> Suc k < nat n \<longrightarrow> ?step k)"
      proof -
        have mx': "max n (i + 1) = n" using True by simp
        have pr: "length (xs @ [x']) = length (ps @ [?p'])" "xs @ [x'] \<noteq> []"
            "last (xs @ [x']) = x'" "last (ps @ [?p']) = ?p'" "int (length (xs @ [x'])) = i + 1"
          using lx lp mi by simp_all
        have l: "length (xs @ [x']) = Suc m" using lx by simp
        from "1.IH" [OF True Inr pr] show ?thesis
          unfolding mx' l .
      qed
      have sx: "take (Suc m) X = xs @ [x'] \<longleftrightarrow> m < length X \<and> take m X = xs \<and> X ! m = x'"
        by (rule take_Suc_snoc_iff [OF lx])
      have sp: "take (Suc m) P = ps @ [?p'] \<longleftrightarrow> m < length P \<and> take m P = ps \<and> P ! m = ?p'"
        by (rule take_Suc_snoc_iff [OF lp])
      have "length X = nat n \<and> length P = nat n \<and>
           take (Suc m) X = xs @ [x'] \<and> take (Suc m) P = ps @ [?p'] \<and>
           (\<forall>k. Suc m \<le> Suc k \<and> Suc k < nat n \<longrightarrow> ?step k) \<longleftrightarrow>
           length X = nat n \<and> length P = nat n \<and>
           take m X = xs \<and> take m P = ps \<and>
           (\<forall>k. m \<le> Suc k \<and> Suc k < nat n \<longrightarrow> ?step k)" (is "?L \<longleftrightarrow> ?R")
      proof
        assume L: ?L
        then have tx: "take m X = xs" "X ! m = x'" and tp: "take m P = ps" "P ! m = ?p'"
          using sx sp by blast+
        have xp: "X ! (m - 1) = x" "P ! (m - 1) = p"
          using lastx lastp tx tp by blast+
        have "\<forall>k. m \<le> Suc k \<and> Suc k < nat n \<longrightarrow> ?step k"
        proof (intro allI impI)
          fix k assume k: "m \<le> Suc k \<and> Suc k < nat n"
          show "?step k"
          proof (cases "Suc k = m")
            case True
            then have km: "k = m - 1" by simp
            have "?step (m - 1)"
              unfolding pred(2) xp tx(2) tp(2) using Inr by simp
            then show ?thesis unfolding km .
          next
            case False
            with k have "Suc m \<le> Suc k \<and> Suc k < nat n" by simp
            with L show ?thesis by blast
          qed
        qed
        with L tx tp show ?R by blast
      next
        assume R: ?R
        then have tx: "take m X = xs" and tp: "take m P = ps" by blast+
        have xp: "X ! (m - 1) = x" "P ! (m - 1) = p"
          using lastx lastp tx tp by blast+
        from R have "?step (m - 1)" using stepm by blast
        then have "get_next_x x p = Inr (X ! m) \<and> P ! m = get_next_p x (X ! m) p"
          unfolding xp pred .
        with Inr have nx: "X ! m = x'" "P ! m = ?p'" by simp_all
        from R lt have len: "m < length X" "m < length P" by simp_all
        have "take (Suc m) X = xs @ [x']" "take (Suc m) P = ps @ [?p']"
          using sx sp len tx tp nx by blast+
        moreover from R have "\<forall>k. Suc m \<le> Suc k \<and> Suc k < nat n \<longrightarrow> ?step k" by simp
        ultimately show ?L using R by blast
      qed
      then show ?thesis unfolding it mx using ih by blast
    qed
  qed
  then show ?case unfolding m_def .
qed

lemma grad_near_answer:
  "grad [[19999999 / 20000000], [3], [19999999 / 20000000]] delta_default =
     [[0], [20000001 / 10000000], [0]]"
  by (simp add: grad_col f_col delta_default_def a_def b_def power_divide)

lemma get_next_x_near_answer:
  "get_next_x [[19999999 / 20000000], [3], [19999999 / 20000000]] [[0], [20000001 / 10000000], [0]] =
     Inr [[19999999 / 20000000], [6553600072320031808001 / 3276800000000000000000],
          [19999999 / 20000000]]"
  by (simp add: get_next_x_def ls_eval)

lemma p0_eq:
  "p0 = [[4000000600000040000001 / 500000000000000000000], [20000001 / 10000000],
         [12000001800000120000003 / 1000000000000000000000]]"
  by (simp add: p0_def x0_def grad_col f_col delta_default_def a_def b_def power_divide)

section \<open>Properties\<close>

text \<open>
  C1.  The specification bounds the directional derivative at the returned point by the tolerance.
  The tolerance of \<open>my_line_search\<close> is a bound on the width of the bracket of step
  lengths, which are multiples of \<open>p\<close> as passed, so the derivative at the returned point
  can be large: from \<open>x0\<close> along \<open>p = (0, 300, 0)\<close> the call returns a point where it is
  above \<open>1e-5\<close>.
\<close>

theorem line_search_derivative_counterexample:
  "my_line_search x0 [[0], [300], [0]] feeler_init_default feeler_step_default tolerance_default
     max_iters_default = Inr [[2], [6553619836161 / 3276800000000], [2]] \<and>
   [[0], [300], [0]] \<noteq> [[0], [0], [0 :: real]] \<and>
   \<not> \<bar>line_grad [[2], [6553619836161 / 3276800000000], [2]] [[0], [300], [0]]\<bar> < 1 / 10 ^ 6"
  using ls_x0_300 by (simp add: line_grad_y delta_default_def)

text \<open>
  C1, as amended.  When \<open>my_line_search(x, p)\<close> returns with the default arguments, the
  returned point is \<open>x + t*p\<close> for \<open>t\<close> one end of a bracket \<open>lmin < lmax\<close> of step
  lengths that is no wider than the tolerance \<open>1e-7\<close>, and the directional derivative along
  \<open>p\<close> is at most 0 at \<open>x + lmin*p\<close> and at least 0 at \<open>x + lmax*p\<close>.
\<close>

theorem line_search_bracket:
  assumes "my_line_search [[u], [v], [w]] [[pu], [pv], [pw]] feeler_init_default
             feeler_step_default tolerance_default max_iters_default = Inr y"
  shows "\<exists>lmin lmax. lmin < lmax \<and> lmax - lmin \<le> tolerance_default \<and>
           (y = add2 [[u], [v], [w]] (smul2 lmin [[pu], [pv], [pw]]) \<or>
            y = add2 [[u], [v], [w]] (smul2 lmax [[pu], [pv], [pw]])) \<and>
           line_grad (add2 [[u], [v], [w]] (smul2 lmin [[pu], [pv], [pw]])) [[pu], [pv], [pw]] \<le> 0 \<and>
           0 \<le> line_grad (add2 [[u], [v], [w]] (smul2 lmax [[pu], [pv], [pw]])) [[pu], [pv], [pw]]"
proof -
  let ?x = "[[u], [v], [w]]" and ?p = "[[pu], [pv], [pw]]"
  let ?lb = "\<lambda>k. - line_grad ?x ?p * feeler_init_default * feeler_step_default ^ k"
  let ?B = "\<lambda>k. bracket_after ?x ?p (max 0 (?lb k)) (min 0 (?lb k))"
  from my_line_search_Inr [OF assms] obtain k j where
    le: "line_grad ?x ?p * line_grad (add2 ?x (smul2 (?lb k) ?p)) ?p \<le> 0" and
    y: "y = add2 ?x (smul2 ((fst (?B k j) + snd (?B k j)) / 2) ?p)" and
    w: "tolerance_default < fst (?B k j) - snd (?B k j)" and
    e: "fst (?B k (Suc j)) - snd (?B k (Suc j)) \<le> tolerance_default"
    by blast
  have c: "0 < feeler_init_default * feeler_step_default ^ k"
    by (simp add: feeler_init_default_def feeler_step_default_def)
  have "?lb k = - line_grad ?x ?p * (feeler_init_default * feeler_step_default ^ k)"
    by simp
  from initial_bracket_sign [OF le this c]
  have s0: "line_grad (add2 ?x (smul2 (min 0 (?lb k)) ?p)) ?p \<le> 0"
           "0 \<le> line_grad (add2 ?x (smul2 (max 0 (?lb k)) ?p)) ?p"
    by simp_all
  from bracket_after_sign [OF s0, of "Suc j"]
  have s: "line_grad (add2 ?x (smul2 (snd (?B k (Suc j))) ?p)) ?p \<le> 0"
          "0 \<le> line_grad (add2 ?x (smul2 (fst (?B k (Suc j))) ?p)) ?p"
    by simp_all
  have "0 < tolerance_default" by (simp add: tolerance_default_def)
  with w have pos: "0 < fst (?B k j) - snd (?B k j)" by linarith
  have "fst (?B k (Suc j)) - snd (?B k (Suc j)) = (fst (?B k j) - snd (?B k j)) / 2"
    by (simp only: bracket_after_width) simp
  with pos have lt: "snd (?B k (Suc j)) < fst (?B k (Suc j))" by simp
  have "(fst (?B k j) + snd (?B k j)) / 2 = snd (?B k (Suc j)) \<or>
        (fst (?B k j) + snd (?B k j)) / 2 = fst (?B k (Suc j))"
    by (simp only: bracket_after_step bisect_body_eq) simp
  with y have yy: "y = add2 ?x (smul2 (snd (?B k (Suc j))) ?p) \<or>
                   y = add2 ?x (smul2 (fst (?B k (Suc j))) ?p)"
    by auto
  from lt e yy s show ?thesis by blast
qed

theorem line_search_bracket_witness:
  "my_line_search x0 [[0], [300], [0]] feeler_init_default feeler_step_default tolerance_default
     max_iters_default = Inr [[2], [6553619836161 / 3276800000000], [2]] \<and>
   (\<exists>lmin lmax. lmin < lmax \<and> lmax - lmin \<le> tolerance_default \<and>
      ([[2], [6553619836161 / 3276800000000], [2]] = add2 x0 (smul2 lmin [[0], [300], [0]]) \<or>
       [[2], [6553619836161 / 3276800000000], [2]] = add2 x0 (smul2 lmax [[0], [300], [0]])) \<and>
      line_grad (add2 x0 (smul2 lmin [[0], [300], [0]])) [[0], [300], [0]] \<le> 0 \<and>
      0 \<le> line_grad (add2 x0 (smul2 lmax [[0], [300], [0]])) [[0], [300], [0]])"
proof -
  have e: "my_line_search [[2], [3], [2]] [[0], [300], [0]] feeler_init_default
      feeler_step_default tolerance_default max_iters_default =
      Inr [[2], [6553619836161 / 3276800000000], [2]]"
    using ls_x0_300 by (simp only: x0_def)
  from line_search_bracket [OF e] e show ?thesis
    by (simp only: x0_def)
qed

text \<open>
  C2.  When the gradient estimate at the previous point is not the zero vector, the
  denominator of the Polak-Ribiere coefficient \<open>\<beta>\<close> is positive and
  \<open>get_next_p(x_old, x_new, p_old)\<close> is \<open>grad(x_new) + \<beta> p_old\<close>, with \<open>\<beta>\<close> computed
  from the same gradient estimates.
\<close>

theorem get_next_p_polak_ribiere:
  "grad [[u], [v], [w]] delta_default \<noteq> [[0], [0], [0]] \<Longrightarrow>
     0 < dot (grad [[u], [v], [w]] delta_default) (grad [[u], [v], [w]] delta_default) \<and>
     get_next_p [[u], [v], [w]] [[u'], [v'], [w']] [[pu], [pv], [pw]] =
       add2 (grad [[u'], [v'], [w']] delta_default)
         (smul2 (polak_ribiere_beta (grad [[u'], [v'], [w']] delta_default)
                   (grad [[u], [v], [w]] delta_default))
            [[pu], [pv], [pw]])"
proof -
  assume nz: "grad [[u], [v], [w]] delta_default \<noteq> [[0], [0], [0]]"
  obtain g1 g2 g3 where g: "grad [[u], [v], [w]] delta_default = [[g1], [g2], [g3]]"
    by (simp add: grad_col)
  obtain h1 h2 h3 where h: "grad [[u'], [v'], [w']] delta_default = [[h1], [h2], [h3]]"
    by (simp add: grad_col)
  from nz g have "g1 \<noteq> 0 \<or> g2 \<noteq> 0 \<or> g3 \<noteq> 0" by simp
  then have "g1 * g1 + g2 * g2 + g3 * g3 \<noteq> 0"
    by (simp add: add_nonneg_eq_0_iff)
  moreover have "0 \<le> g1 * g1 + g2 * g2 + g3 * g3" by simp
  ultimately have "0 < g1 * g1 + g2 * g2 + g3 * g3" by linarith
  then have pos: "0 < dot [[g1], [g2], [g3]] [[g1], [g2], [g3]]"
    by (simp only: dot_col)
  have "get_next_p [[u], [v], [w]] [[u'], [v'], [w']] [[pu], [pv], [pw]] =
       add2 (grad [[u'], [v'], [w']] delta_default)
         (smul2 (polak_ribiere_beta (grad [[u'], [v'], [w']] delta_default)
                   (grad [[u], [v], [w]] delta_default))
            [[pu], [pv], [pw]])"
    by (simp add: get_next_p_def polak_ribiere_beta_def g h sub2_col inner_col Let_def
        div11_def bmul_def)
  with pos g show ?thesis by simp
qed

theorem get_next_p_polak_ribiere_witness:
  "grad x0 delta_default \<noteq> [[0], [0], [0]] \<and>
   0 < dot (grad x0 delta_default) (grad x0 delta_default) \<and>
   get_next_p x0 answer p0 =
     add2 (grad answer delta_default)
       (smul2 (polak_ribiere_beta (grad answer delta_default) (grad x0 delta_default)) p0)"
proof -
  have h: "grad [[2], [3], [2]] delta_default \<noteq> [[0], [0], [0]]"
    by (simp add: grad_col f_col delta_default_def a_def b_def power_divide)
  show ?thesis
    using h get_next_p_polak_ribiere [OF h, of 1 2 1
        "4000000600000040000001 / 500000000000000000000" "20000001 / 10000000"
        "12000001800000120000003 / 1000000000000000000000"]
    by (simp add: x0_def answer_def p0_eq)
qed

text \<open>
  C3.  The specification puts the first iterate after a line search at index 0 of the trajectory.
  The lists of the run start with the start point and its gradient: with \<open>n_iters = 1\<close> no
  line search is run at all, and the only entry is the pair \<open>(x0, p0)\<close>, which is not what
  the line search from \<open>x0\<close> along \<open>p0\<close> returns.
\<close>

theorem run_index_zero_counterexample:
  "run 1 x0 = Inr ([x0], [p0]) \<and> get_next_x x0 p0 \<noteq> Inr x0"
proof
  show "run 1 x0 = Inr ([x0], [p0])"
    by (simp add: run_def iterate.simps p0_def Let_def)
  show "get_next_x x0 p0 \<noteq> Inr x0"
  proof
    assume "get_next_x x0 p0 = Inr x0"
    then have "my_line_search x0 p0 feeler_init_default feeler_step_default tolerance_default
        max_iters_default = Inr x0"
      by (simp only: get_next_x_def)
    from my_line_search_moves [OF this] obtain t where "t \<noteq> 0" "x0 = add2 x0 (smul2 t p0)"
      by (auto simp: tolerance_default_def)
    then show False
      by (simp add: x0_def p0_eq add2_col smul2_col)
  qed
qed

text \<open>
  C3, as amended.  For \<open>n_iters\<close> of at least 1, the run from a start point returns the
  lists \<open>x_ts\<close> and \<open>p_ts\<close> exactly when both have length \<open>n_iters\<close>, their entries at
  index 0 are the start point and the gradient estimate there, and each entry after index 0
  comes from the one before it by \<open>x\<^sub>k\<^sub>+\<^sub>1 = my_line_search(x\<^sub>k, p\<^sub>k)\<close>, returning
  normally with the default arguments, and \<open>p\<^sub>k\<^sub>+\<^sub>1 = get_next_p(x\<^sub>k, x\<^sub>k\<^sub>+\<^sub>1, p\<^sub>k)\<close>.
\<close>

theorem run_trajectory:
  assumes "1 \<le> n_iters"
  shows "run n_iters start = Inr (x_ts, p_ts) \<longleftrightarrow>
           length x_ts = nat n_iters \<and> length p_ts = nat n_iters \<and>
           x_ts ! 0 = start \<and> p_ts ! 0 = grad start delta_default \<and>
           (\<forall>k. Suc k < nat n_iters \<longrightarrow>
                get_next_x (x_ts ! k) (p_ts ! k) = Inr (x_ts ! Suc k) \<and>
                p_ts ! Suc k = get_next_p (x_ts ! k) (x_ts ! Suc k) (p_ts ! k))"
proof -
  have mx: "max n_iters 1 = n_iters" using assms by simp
  have t: "0 < length X \<Longrightarrow> take (Suc 0) X = [z] \<longleftrightarrow> X ! 0 = z" for X :: "array2 list" and z
    by (cases X) simp_all
  have pos: "length x_ts = nat n_iters \<Longrightarrow> 0 < length x_ts"
            "length p_ts = nat n_iters \<Longrightarrow> 0 < length p_ts"
    using assms by simp_all
  have "run n_iters start = iterate n_iters 1 start (grad start delta_default) [start]
      [grad start delta_default]"
    by (simp add: run_def Let_def)
  also have "\<dots> = Inr (x_ts, p_ts) \<longleftrightarrow>
           length x_ts = nat n_iters \<and> length p_ts = nat n_iters \<and>
           take (Suc 0) x_ts = [start] \<and> take (Suc 0) p_ts = [grad start delta_default] \<and>
           (\<forall>k. Suc k < nat n_iters \<longrightarrow>
                get_next_x (x_ts ! k) (p_ts ! k) = Inr (x_ts ! Suc k) \<and>
                p_ts ! Suc k = get_next_p (x_ts ! k) (x_ts ! Suc k) (p_ts ! k))"
    using iterate_iff [of "[start]" "[grad start delta_default]" start "grad start delta_default" 1
        n_iters x_ts p_ts] mx
    by simp
  finally have main: "run n_iters start = Inr (x_ts, p_ts) \<longleftrightarrow>
           length x_ts = nat n_iters \<and> length p_ts = nat n_iters \<and>
           take (Suc 0) x_ts = [start] \<and> take (Suc 0) p_ts = [grad start delta_default] \<and>
           (\<forall>k. Suc k < nat n_iters \<longrightarrow>
                get_next_x (x_ts ! k) (p_ts ! k) = Inr (x_ts ! Suc k) \<and>
                p_ts ! Suc k = get_next_p (x_ts ! k) (x_ts ! Suc k) (p_ts ! k))" .
  have e1: "length x_ts = nat n_iters \<Longrightarrow> take (Suc 0) x_ts = [start] \<longleftrightarrow> x_ts ! 0 = start"
    using t [of x_ts start] pos(1) by blast
  have e2: "length p_ts = nat n_iters \<Longrightarrow>
      take (Suc 0) p_ts = [grad start delta_default] \<longleftrightarrow> p_ts ! 0 = grad start delta_default"
    using t [of p_ts "grad start delta_default"] pos(2) by blast
  show ?thesis unfolding main using e1 e2 by blast
qed

theorem run_trajectory_witness:
  "(1 :: int) \<le> 2 \<and>
   run 2 [[19999999 / 20000000], [3], [19999999 / 20000000]] =
     Inr ([[[19999999 / 20000000], [3], [19999999 / 20000000]],
           [[19999999 / 20000000], [6553600072320031808001 / 3276800000000000000000],
            [19999999 / 20000000]]],
          [[[0], [20000001 / 10000000], [0]],
           get_next_p [[19999999 / 20000000], [3], [19999999 / 20000000]]
             [[19999999 / 20000000], [6553600072320031808001 / 3276800000000000000000],
              [19999999 / 20000000]]
             [[0], [20000001 / 10000000], [0]]])"
proof -
  have h: "(1 :: int) \<le> 2" by simp
  have k: "Suc k < nat 2 \<longleftrightarrow> k = 0" for k by auto
  from h show ?thesis
    unfolding run_trajectory [OF h]
    by (simp add: k grad_near_answer get_next_x_near_answer)
qed

text \<open>
  C4.  For the zero direction the specification asks for the input point back.  With the default
  arguments the call instead ends in an \<open>UnboundLocalError\<close>, from every point: neither loop
  runs, and \<open>lnew\<close> is read unbound by the \<open>return\<close>.
\<close>

theorem zero_direction_raises:
  "my_line_search [[u], [v], [w]] [[0], [0], [0]] feeler_init_default feeler_step_default
     tolerance_default max_iters_default = Inl (UnboundLocalError ''lnew'')"
  by (simp add: my_line_search_def line_grad_zero expansion.simps bisection.simps
      tolerance_default_def Let_def)

text \<open>
  C5.  With \<open>a = 2\<close>, \<open>b = 3\<close> and the default step \<open>1e-7\<close>, each component of
  \<open>grad(x0)\<close> at \<open>x0 = (2, 3, 2)\<close> is the forward difference of \<open>f\<close> with only that
  coordinate perturbed, the analytical gradient there is \<open>(8, 2, 12)\<close>, and every component
  of \<open>grad(x0)\<close> is within \<open>2e-6\<close> of it.
\<close>

theorem grad_at_x0:
  "grad x0 delta_default =
     [[(hd (f (add2 x0 [[delta_default], [0], [0]])) - hd (f x0)) / delta_default],
      [(hd (f (add2 x0 [[0], [delta_default], [0]])) - hd (f x0)) / delta_default],
      [(hd (f (add2 x0 [[0], [0], [delta_default]])) - hd (f x0)) / delta_default]] \<and>
   grad_analytic x0 = [[8], [2], [12]] \<and>
   \<bar>grad x0 delta_default ! 0 ! 0 - 8\<bar> < 2 / 10 ^ 6 \<and>
   \<bar>grad x0 delta_default ! 1 ! 0 - 2\<bar> < 2 / 10 ^ 6 \<and>
   \<bar>grad x0 delta_default ! 2 ! 0 - 12\<bar> < 2 / 10 ^ 6"
  by (simp add: x0_def grad_col add2_col f_col grad_analytic_def a_def b_def delta_default_def
      power_divide)






text \<open>
  C9.  A point returned by \<open>my_line_search(x, p)\<close> is \<open>x + t*p\<close>, with the direction
  \<open>p\<close> as it was passed and \<open>t\<close> the last midpoint of the bisection: the numbers of
  multiplications and of bisections that lead to it are fixed by the directional derivatives
  measured at points \<open>x + l*p\<close>.  For a tolerance that is not negative and a direction that
  is not already normalised, the point is not \<open>x + t*normalize(p)\<close>.  The normalised
  direction enters only through \<open>line_grad\<close>, whose value does not change when \<open>p\<close> is
  multiplied by a positive number.
\<close>

theorem line_search_on_line:
  assumes "my_line_search [[u], [v], [w]] [[pu], [pv], [pw]] feeler_init feeler_step tolerance
             max_iters = Inr y"
  shows "(\<exists>k j t.
            (\<forall>i<k. 0 < line_grad [[u], [v], [w]] [[pu], [pv], [pw]] *
                  line_grad (add2 [[u], [v], [w]]
                    (smul2 (- line_grad [[u], [v], [w]] [[pu], [pv], [pw]] * feeler_init *
                            feeler_step ^ i) [[pu], [pv], [pw]])) [[pu], [pv], [pw]]) \<and>
            line_grad [[u], [v], [w]] [[pu], [pv], [pw]] *
              line_grad (add2 [[u], [v], [w]]
                (smul2 (- line_grad [[u], [v], [w]] [[pu], [pv], [pw]] * feeler_init *
                        feeler_step ^ k) [[pu], [pv], [pw]])) [[pu], [pv], [pw]] \<le> 0 \<and>
            (\<forall>i\<le>j. tolerance <
                  \<bar>- line_grad [[u], [v], [w]] [[pu], [pv], [pw]] * feeler_init * feeler_step ^ k\<bar> /
                  2 ^ i) \<and>
            \<bar>- line_grad [[u], [v], [w]] [[pu], [pv], [pw]] * feeler_init * feeler_step ^ k\<bar> /
              2 ^ Suc j \<le> tolerance \<and>
            t = (fst (bracket_after [[u], [v], [w]] [[pu], [pv], [pw]]
                        (max 0 (- line_grad [[u], [v], [w]] [[pu], [pv], [pw]] * feeler_init *
                                feeler_step ^ k))
                        (min 0 (- line_grad [[u], [v], [w]] [[pu], [pv], [pw]] * feeler_init *
                                feeler_step ^ k)) j) +
                 snd (bracket_after [[u], [v], [w]] [[pu], [pv], [pw]]
                        (max 0 (- line_grad [[u], [v], [w]] [[pu], [pv], [pw]] * feeler_init *
                                feeler_step ^ k))
                        (min 0 (- line_grad [[u], [v], [w]] [[pu], [pv], [pw]] * feeler_init *
                                feeler_step ^ k)) j)) / 2 \<and>
            y = add2 [[u], [v], [w]] (smul2 t [[pu], [pv], [pw]]) \<and>
            (0 \<le> tolerance \<and> normalize [[pu], [pv], [pw]] \<noteq> [[pu], [pv], [pw]] \<longrightarrow>
               y \<noteq> add2 [[u], [v], [w]] (smul2 t (normalize [[pu], [pv], [pw]])))) \<and>
         (\<forall>c>0. \<forall>z. line_grad z (smul2 c [[pu], [pv], [pw]]) = line_grad z [[pu], [pv], [pw]])"
proof -
  let ?x = "[[u], [v], [w]]" and ?p = "[[pu], [pv], [pw]]"
  let ?lb = "\<lambda>k. - line_grad ?x ?p * feeler_init * feeler_step ^ k"
  let ?B = "\<lambda>k. bracket_after ?x ?p (max 0 (?lb k)) (min 0 (?lb k))"
  from my_line_search_Inr_exact [OF assms] obtain k j where
    pos: "\<forall>i<k. 0 < line_grad ?x ?p * line_grad (add2 ?x (smul2 (?lb i) ?p)) ?p" and
    le: "line_grad ?x ?p * line_grad (add2 ?x (smul2 (?lb k) ?p)) ?p \<le> 0" and
    w: "\<forall>i\<le>j. tolerance < \<bar>?lb k\<bar> / 2 ^ i" and
    e: "\<bar>?lb k\<bar> / 2 ^ Suc j \<le> tolerance" and
    y: "y = add2 ?x (smul2 ((fst (?B k j) + snd (?B k j)) / 2) ?p)"
    by blast
  define t where "t = (fst (?B k j) + snd (?B k j)) / 2"
  have yt: "y = add2 ?x (smul2 t ?p)" using y by (simp only: t_def)
  have raw: "y \<noteq> add2 ?x (smul2 t (normalize ?p))"
    if tol: "0 \<le> tolerance" and ne: "normalize ?p \<noteq> ?p"
  proof
    assume eq: "y = add2 ?x (smul2 t (normalize ?p))"
    have w0: "max 0 (?lb k) - min 0 (?lb k) = \<bar>?lb k\<bar>" by (simp add: max_def min_def)
    from w have "tolerance < \<bar>?lb k\<bar> / 2 ^ j" by simp
    then have wj: "tolerance < fst (?B k j) - snd (?B k j)"
      using bracket_after_width [of ?x ?p "max 0 (?lb k)" "min 0 (?lb k)" j] by (simp only: w0)
    have t0: "t \<noteq> 0" unfolding t_def by (rule mid_in_bracket(2) [OF wj tol])
    obtain q1 q2 q3 where q: "normalize ?p = [[q1], [q2], [q3]]"
      by (cases "linalg_norm ?p = 0") (simp_all add: normalize_def Let_def sdiv2_def sdiv1_def)
    from eq yt have "add2 ?x (smul2 t ?p) = add2 ?x (smul2 t [[q1], [q2], [q3]])"
      by (simp only: q)
    with t0 have "[[q1], [q2], [q3]] = ?p" by (simp add: add2_col smul2_col)
    with ne q show False by simp
  qed
  have sc: "\<forall>c>0. \<forall>z. line_grad z (smul2 c ?p) = line_grad z ?p"
    by (simp add: line_grad_scale)
  from pos le w e yt raw sc show ?thesis
    unfolding t_def by blast
qed

theorem line_search_on_line_witness:
  "my_line_search x0 [[0], [300], [0]] feeler_init_default feeler_step_default tolerance_default
     max_iters_default = Inr [[2], [6553619836161 / 3276800000000], [2]] \<and>
   (\<exists>t. [[2], [6553619836161 / 3276800000000], [2]] = add2 x0 (smul2 t [[0], [300], [0]]) \<and>
        [[2], [6553619836161 / 3276800000000], [2]] \<noteq>
          add2 x0 (smul2 t (normalize [[0], [300], [0]]))) \<and>
   line_grad x0 (smul2 2 [[0], [300], [0]]) = line_grad x0 [[0], [300], [0]]"
proof -
  have e: "my_line_search [[2], [3], [2]] [[0], [300], [0]] feeler_init_default
      feeler_step_default tolerance_default max_iters_default =
      Inr [[2], [6553619836161 / 3276800000000], [2]]"
    using ls_x0_300 by (simp only: x0_def)
  have h: "0 \<le> tolerance_default \<and> normalize [[0], [300], [0]] \<noteq> [[0], [300], [0]]"
    by (simp add: tolerance_default_def normalize_y)
  from line_search_on_line [OF e] h obtain t where
    t: "[[2], [6553619836161 / 3276800000000], [2]] = add2 [[2], [3], [2]] (smul2 t [[0], [300], [0]])"
       "[[2], [6553619836161 / 3276800000000], [2]] \<noteq>
          add2 [[2], [3], [2]] (smul2 t (normalize [[0], [300], [0]]))" and
    s: "\<forall>c>0. \<forall>z. line_grad z (smul2 c [[0], [300], [0]]) = line_grad z [[0], [300], [0]]"
    by blast
  from s have "line_grad x0 (smul2 2 [[0], [300], [0]]) = line_grad x0 [[0], [300], [0]]"
    by simp
  with e t show ?thesis unfolding x0_def by blast
qed

text \<open>
  C10.  In exact arithmetic, for every point and every step size \<open>delta\<close> other than 0, the
  second component of \<open>grad(pt, delta)\<close> is exactly \<open>2 (pt\<^sub>2 - 2) + delta\<close>, and the
  other two components are the forward differences of their own quartic terms, in which the
  second coordinate does not occur.
\<close>

theorem grad_second_component:
  "delta \<noteq> 0 \<Longrightarrow>
     grad [[u], [v], [w]] delta =
       [[a * ((u + delta - 1) ^ 4 - (u - 1) ^ 4) / delta],
        [2 * (v - 2) + delta],
        [b * ((w + delta - 1) ^ 4 - (w - 1) ^ 4) / delta]]"
  by (simp add: grad_col f_col power2_eq_square field_simps)

theorem grad_second_component_witness:
  "delta_default \<noteq> 0 \<and>
   grad x0 delta_default =
     [[a * ((2 + delta_default - 1) ^ 4 - (2 - 1) ^ 4) / delta_default],
      [2 * (3 - 2) + delta_default],
      [b * ((2 + delta_default - 1) ^ 4 - (2 - 1) ^ 4) / delta_default]]"
proof -
  have h: "delta_default \<noteq> 0" by (simp add: delta_default_def)
  show ?thesis using h grad_second_component [OF h, of 2 3 2] by (simp add: x0_def)
qed

end
